theory Spec2Isabelle
  imports
    Main
    "HOL-Library.Char_ord"
    "HOL-Library.List_Lexorder"
    "HOL-Library.Product_Lexorder"
    "HOL-Library.Option_ord"
    "HOL-Library.Multiset"
begin

section \<open>The chapter generator (Book/gen_contents.py)\<close>

text \<open>
  The script scans chapter directories \<^verbatim>\<open><int>-<token>\<close> for source files
  \<^verbatim>\<open><int>.<int>[.<int>]_<token>.cpp\<close> and writes one document
  \<^verbatim>\<open>chapter<N>.tex\<close> per chapter directory.

  Conventions of the embedding.
  \<^item> A Python \<^verbatim>\<open>str\<close> is a \<^typ>\<open>string\<close>; a \<^typ>\<open>char\<close> stands for a code point
    below 256, and strings are compared by code point (\<^verbatim>\<open>Char_ord\<close>,
    \<^verbatim>\<open>List_Lexorder\<close>), as Python compares them.
  \<^item> Every integer of the script is the value of a match of \<^verbatim>\<open>\d+\<close>, hence
    non-negative: chapter, section and subsection numbers are \<^typ>\<open>nat\<close>.
  \<^item> The script uses f-strings, so it runs under Python 3: \<^verbatim>\<open>None < 1\<close> raises
    \<^verbatim>\<open>TypeError\<close>, and \<^verbatim>\<open>assert\<close> raises \<^verbatim>\<open>AssertionError\<close> (the interpreter
    is taken to run without \<^verbatim>\<open>-O\<close>).
  \<^item> The output file is the sequence of the \<^verbatim>\<open>fout.write\<close> calls made so far; the
    buffering of the I/O layer is not part of the model, and line separators are
    written as they are (POSIX).
\<close>

subsection \<open>Characters and numbers\<close>

definition backslash :: char where
  "backslash = CHR 0x5C"

definition newline :: char where
  "newline = CHR 0x0A"

definition carriage_return :: char where
  "carriage_return = CHR 0x0D"

text \<open>\<^verbatim>\<open>\d\<close>: among the code points below 256 the decimal digits are 0 to 9.\<close>

definition is_digit :: "char \<Rightarrow> bool" where
  "is_digit c = (c \<in> set ''0123456789'')"

text \<open>
  \<^verbatim>\<open>\s\<close> on a \<^verbatim>\<open>str\<close> pattern: the whitespace code points below 256 are
  9 to 13, 28 to 32, 133 and 160; \<^verbatim>\<open>\S\<close> is its complement.
\<close>

definition is_space :: "char \<Rightarrow> bool" where
  "is_space c = ((of_char c :: nat) \<in> set [9, 10, 11, 12, 13, 28, 29, 30, 31, 32, 133, 160])"

definition non_space :: "string \<Rightarrow> bool" where
  "non_space s = list_all (\<lambda>c. \<not> is_space c) s"

text \<open>\<^verbatim>\<open>int(s)\<close> on a non-empty string of digits.\<close>

definition int_of_digits :: "string \<Rightarrow> nat" where
  "int_of_digits s = foldl (\<lambda>n c. 10 * n + (of_char c - 48)) 0 s"

text \<open>The decimal numeral an f-string prints for a non-negative integer.\<close>

function str_nat :: "nat \<Rightarrow> string" where
  "str_nat n =
     (if n < 10 then [char_of (48 + n)]
      else str_nat (n div 10) @ [char_of (48 + n mod 10)])"
  by pat_completeness auto
termination
  by (relation "measure id") auto

text \<open>\<^verbatim>\<open>s.replace(a, b)\<close> for one-character \<^verbatim>\<open>a\<close> and \<^verbatim>\<open>b\<close>.\<close>

definition replace_char :: "char \<Rightarrow> char \<Rightarrow> string \<Rightarrow> string" where
  "replace_char a b s = map (\<lambda>c. if c = a then b else c) s"

subsection \<open>The two file name patterns\<close>

text \<open>
  Both patterns end in \<^verbatim>\<open>$\<close>, which matches at the end of the string and also just
  before a newline that ends the string. No other part of either pattern can match a
  newline, so a name matches iff the name without one final newline matches up to its
  very end.
\<close>

definition chomp :: "string \<Rightarrow> string" where
  "chomp s = (if s \<noteq> [] \<and> last s = newline then butlast s else s)"

text \<open>
  \<^verbatim>\<open>(\S+)\.cpp$\<close> on the rest of the name: the greedy \<^verbatim>\<open>\S+\<close> gives back characters
  until \<^verbatim>\<open>.cpp\<close> is all that is left, so group 4 is the rest without its last four
  characters; the rest has no whitespace and the group is not empty.
\<close>

definition match_name :: "string \<Rightarrow> string option" where
  "match_name r =
     (if 4 < length r \<and> drop (length r - 4) r = ''.cpp'' \<and> non_space r
      then Some (take (length r - 4) r) else None)"

text \<open>
  \<^verbatim>\<open>(?:\.(\d+))?_\<close>: either the underscore follows at once (group 3 did not take
  part), or a dot, a maximal non-empty run of digits and the underscore.
\<close>

definition match_subsection :: "string \<Rightarrow> (string option \<times> string) option" where
  "match_subsection r =
     (case r of
        [] \<Rightarrow> None
      | c # cs \<Rightarrow>
          if c = CHR ''_'' then Some (None, cs)
          else if c = CHR ''.'' \<and> takeWhile is_digit cs \<noteq> [] then
            (case dropWhile is_digit cs of
               [] \<Rightarrow> None
             | u # rest \<Rightarrow>
                 if u = CHR ''_'' then Some (Some (takeWhile is_digit cs), rest) else None)
          else None)"

text \<open>
  \<^verbatim>\<open>FILE_RE = ^(\d+)\.(\d+)(?:\.(\d+))?_(\S+)\.cpp$\<close> with \<^verbatim>\<open>match\<close>:
  the groups 1 to 4, or \<open>None\<close> when the name does not match.
\<close>

definition FILE_RE_match :: "string \<Rightarrow> (string \<times> string \<times> string option \<times> string) option" where
  "FILE_RE_match file =
     (let s = chomp file; g1 = takeWhile is_digit s in
      if g1 = [] then None
      else
        (case dropWhile is_digit s of
           [] \<Rightarrow> None
         | dot # r1 \<Rightarrow>
             if dot \<noteq> CHR ''.'' \<or> takeWhile is_digit r1 = [] then None
             else
               (case match_subsection (dropWhile is_digit r1) of
                  None \<Rightarrow> None
                | Some (g3, r3) \<Rightarrow>
                    (case match_name r3 of
                       None \<Rightarrow> None
                     | Some g4 \<Rightarrow> Some (g1, takeWhile is_digit r1, g3, g4)))))"

text \<open>\<^verbatim>\<open>DIR_RE = ^(\d+)-(\S+)$\<close> with \<^verbatim>\<open>match\<close>: the groups 1 and 2.\<close>

definition DIR_RE_match :: "string \<Rightarrow> (string \<times> string) option" where
  "DIR_RE_match file =
     (let s = chomp file; g1 = takeWhile is_digit s in
      if g1 = [] then None
      else
        (case dropWhile is_digit s of
           [] \<Rightarrow> None
         | dash # g2 \<Rightarrow>
             if dash = CHR ''-'' \<and> g2 \<noteq> [] \<and> non_space g2 then Some (g1, g2) else None))"

subsection \<open>The section title table\<close>

definition SECTION_NAMES :: "((nat \<times> nat) \<times> string) list" where
  "SECTION_NAMES =
    [((1, 1), ''Array Transformations''),
     ((1, 2), ''Array Queries''),
     ((1, 3), ''Searching''),
     ((1, 4), ''Cycle Detection''),
     ((2, 1), ''Heaps''),
     ((2, 2), ''Dictionaries''),
     ((2, 3), ''Range Queries in One Dimension''),
     ((2, 4), ''Range Queries in Two Dimensions''),
     ((2, 5), ''Fenwick Trees''),
     ((2, 6), ''Tree Data Structures''),
     ((3, 1), ''String Utilities''),
     ((3, 3), ''String Searching''),
     ((3, 2), ''Expression Parsing''),
     ((3, 4), ''Dynamic Programming''),
     ((3, 5), ''Suffix Array and LCP''),
     ((3, 6), ''String Data Structures''),
     ((4, 1), ''Depth-First Search''),
     ((4, 2), ''Shortest Path''),
     ((4, 3), ''Connectivity''),
     ((4, 4), ''Minimum Spanning Tree''),
     ((4, 5), ''Maximum Flow''),
     ((4, 6), ''Maximum Matching''),
     ((4, 7), ''Hard Problems''),
     ((5, 1), ''Math Utilities''),
     ((5, 2), ''Combinatorics''),
     ((5, 3), ''Number Theory''),
     ((5, 4), ''Arbitrary Precision Arithmetic''),
     ((5, 5), ''Linear Algebra''),
     ((5, 6), ''Root Finding and Calculus''),
     ((6, 1), ''Geometric Classes''),
     ((6, 2), ''Elementary Geometric Calculations''),
     ((6, 3), ''Intermediate Geometric Calculations''),
     ((6, 4), ''Advanced Geometric Computations'')]"

text \<open>\<^verbatim>\<open>SECTION_NAMES.get((chapter, section), "")\<close>.\<close>

definition section_title :: "nat \<Rightarrow> nat \<Rightarrow> string" where
  "section_title chapter section =
     (case map_of SECTION_NAMES (chapter, section) of Some title \<Rightarrow> title | None \<Rightarrow> [])"

subsection \<open>Files, errors and the output\<close>

text \<open>
  A directory is the list of its entries in the order \<^verbatim>\<open>os.listdir\<close> enumerates
  them. A regular file holds its decoded text.
\<close>

datatype node = RegularFile string | Directory "(string \<times> node) list"

type_synonym directory = "(string \<times> node) list"

datatype error = AssertionError | TypeError | OSError

definition listdir :: "directory \<Rightarrow> string list" where
  "listdir d = map fst d"

text \<open>
  Reading in text mode with the default \<^verbatim>\<open>newline=None\<close> translates the line
  endings \<^verbatim>\<open>\r\n\<close> and \<^verbatim>\<open>\r\<close> into \<^verbatim>\<open>\n\<close>.
\<close>

fun universal_newlines :: "string \<Rightarrow> string" where
  "universal_newlines [] = []"
| "universal_newlines [c] = (if c = carriage_return then [newline] else [c])"
| "universal_newlines (c # d # cs) =
     (if c = carriage_return \<and> d = newline then newline # universal_newlines cs
      else if c = carriage_return then newline # universal_newlines (d # cs)
      else c # universal_newlines (d # cs))"

text \<open>
  \<^verbatim>\<open>open(path, 'r').read()\<close> on a node: the text of a regular file; opening a
  directory raises \<^verbatim>\<open>OSError\<close>.
\<close>

fun node_text :: "node \<Rightarrow> error + string" where
  "node_text (RegularFile t) = Inr (universal_newlines t)"
| "node_text (Directory d) = Inl OSError"

text \<open>The same for the name \<^verbatim>\<open>join(dirname, file)\<close>; a name that is gone raises too.\<close>

definition read_file :: "directory \<Rightarrow> string \<Rightarrow> error + string" where
  "read_file d file =
     (case map_of d file of
        None \<Rightarrow> Inl OSError
      | Some nd \<Rightarrow> node_text nd)"

text \<open>One constructor for each \<^verbatim>\<open>fout.write\<close> of the script.\<close>

datatype chunk =
    ChapterTitle string
  | SectionHeader string
  | SetSectionCounter nat
  | ResetSubsectionCounter
  | SubsectionHeader string
  | BeginListing
  | Contents string
  | EndListing

text \<open>The text each write puts into the file.\<close>

fun render :: "chunk \<Rightarrow> string" where
  "render (ChapterTitle t) = backslash # ''chapter{'' @ t @ ''}'' @ [newline]"
| "render (SectionHeader t) = newline # backslash # ''section{'' @ t @ ''}'' @ [newline]"
| "render (SetSectionCounter n) =
     backslash # ''setcounter{section}{'' @ str_nat n @ ''}'' @ [newline]"
| "render ResetSubsectionCounter = backslash # ''setcounter{subsection}{0}'' @ [newline]"
| "render (SubsectionHeader t) = backslash # ''subsection{'' @ t @ ''}'' @ [newline]"
| "render BeginListing = backslash # ''begin{lstlisting}'' @ [newline]"
| "render (Contents text) = text"
| "render EndListing = backslash # ''end{lstlisting}'' @ [newline]"

definition file_text :: "chunk list \<Rightarrow> string" where
  "file_text ws = concat (map render ws)"

subsection \<open>Collecting and sorting the entries\<close>

text \<open>The tuple \<^verbatim>\<open>(chapter, section, subsection, name, file)\<close>.\<close>

type_synonym entry = "nat \<times> nat \<times> nat option \<times> string \<times> string"

text \<open>
  The first loop of \<^verbatim>\<open>gen_chapter\<close>: names that do not match are skipped, a name
  whose chapter number is not \<open>chapter\<close> fails the assertion, every other name adds
  its entry at the end of the list.
\<close>

fun collect_entries :: "nat \<Rightarrow> string list \<Rightarrow> error + entry list" where
  "collect_entries chapter [] = Inr []"
| "collect_entries chapter (file # files) =
     (case FILE_RE_match file of
        None \<Rightarrow> collect_entries chapter files
      | Some (g1, g2, g3, g4) \<Rightarrow>
          if chapter \<noteq> int_of_digits g1 then Inl AssertionError
          else
            (case collect_entries chapter files of
               Inl e \<Rightarrow> Inl e
             | Inr entries \<Rightarrow>
                 Inr ((chapter, int_of_digits g2, map_option int_of_digits g3, g4, file)
                      # entries)))"

text \<open>
  Python 3 compares two tuples at their first components that differ. Comparing
  \<^verbatim>\<open>None\<close> with an integer by \<^verbatim>\<open><\<close> raises \<^verbatim>\<open>TypeError\<close>; the comparison is
  reached only when the two subsections differ, so one of them is a number.
\<close>

fun subsection_lt :: "nat option \<Rightarrow> nat option \<Rightarrow> error + bool" where
  "subsection_lt (Some a) (Some b) = Inr (a < b)"
| "subsection_lt _ _ = Inl TypeError"

fun entry_lt :: "entry \<Rightarrow> entry \<Rightarrow> error + bool" where
  "entry_lt (c1, s1, u1, n1, f1) (c2, s2, u2, n2, f2) =
     (if c1 \<noteq> c2 then Inr (c1 < c2)
      else if s1 \<noteq> s2 then Inr (s1 < s2)
      else if u1 \<noteq> u2 then subsection_lt u1 u2
      else if n1 \<noteq> n2 then Inr (n1 < n2)
      else Inr (f1 < f2))"

text \<open>
  \<^verbatim>\<open>sorted(entries)\<close> as an insertion sort on the comparison above: an entry goes
  behind the entries that are less than it, and the first comparison that raises ends
  the sort. The tuples of a directory are pairwise different, so the result of a sort
  that succeeds does not depend on the sorting algorithm; \<open>sorted_py_eq\<close> below
  shows when it raises and what it returns.
\<close>

fun insert_py :: "entry \<Rightarrow> entry list \<Rightarrow> error + entry list" where
  "insert_py x [] = Inr [x]"
| "insert_py x (y # ys) =
     (case entry_lt y x of
        Inl e \<Rightarrow> Inl e
      | Inr False \<Rightarrow> Inr (x # y # ys)
      | Inr True \<Rightarrow> (case insert_py x ys of Inl e \<Rightarrow> Inl e | Inr zs \<Rightarrow> Inr (y # zs)))"

fun sorted_py :: "entry list \<Rightarrow> error + entry list" where
  "sorted_py [] = Inr []"
| "sorted_py (x # xs) =
     (case sorted_py xs of Inl e \<Rightarrow> Inl e | Inr ys \<Rightarrow> insert_py x ys)"

subsection \<open>Writing a chapter\<close>

text \<open>\<^verbatim>\<open>if subsection:\<close> is false for \<^verbatim>\<open>None\<close> and for 0.\<close>

fun truthy :: "nat option \<Rightarrow> bool" where
  "truthy None = False"
| "truthy (Some n) = (n \<noteq> 0)"

text \<open>
  The second loop of \<^verbatim>\<open>gen_chapter\<close>, from the entry at the head of the list on,
  with the value of \<^verbatim>\<open>prev_section\<close>: the writes it makes, and the error that ended
  it, if any. The listing is opened before the file is read, so a read that fails
  leaves \<^verbatim>\<open>\begin{lstlisting}\<close> as the last write.
\<close>

fun write_entries :: "directory \<Rightarrow> nat option \<Rightarrow> entry list \<Rightarrow> chunk list \<times> error option" where
  "write_entries d prev_section [] = ([], None)"
| "write_entries d prev_section ((chapter, section, subsection, name, file) # entries) =
     (if section < 1 then write_entries d prev_section entries
      else
        (let header =
               (if Some section \<noteq> prev_section then
                  [SectionHeader (section_title chapter section), SetSectionCounter section]
                  @ (if truthy subsection then [ResetSubsectionCounter] else [])
                else [])
               @ (if truthy subsection then [SubsectionHeader (replace_char CHR ''_'' CHR '' '' name)]
                  else [])
               @ [BeginListing]
         in
           (case read_file d file of
              Inl e \<Rightarrow> (header, Some e)
            | Inr text \<Rightarrow>
                (case write_entries d (Some section) entries of
                   (ws, err) \<Rightarrow> (header @ [Contents text, EndListing] @ ws, err)))))"

text \<open>
  The writes of \<^verbatim>\<open>gen_chapter(dirname, chapter, chapter_name)\<close> to \<^verbatim>\<open>fout\<close> and
  the error it raises, if any. The title is written before the directory is listed.
\<close>

definition gen_chapter_writes :: "directory \<Rightarrow> nat \<Rightarrow> string \<Rightarrow> chunk list \<times> error option" where
  "gen_chapter_writes d chapter chapter_name =
     (let title = [ChapterTitle (replace_char CHR ''-'' CHR '' '' chapter_name)] in
      case collect_entries chapter (listdir d) of
        Inl e \<Rightarrow> (title, Some e)
      | Inr entries \<Rightarrow>
          (case sorted_py entries of
             Inl e \<Rightarrow> (title, Some e)
           | Inr es \<Rightarrow> (case write_entries d None es of (ws, err) \<Rightarrow> (title @ ws, err))))"

text \<open>
  The output directory maps a file name to its text. Opening the output file with
  mode \<^verbatim>\<open>'w'\<close> creates or truncates it, so whatever \<^verbatim>\<open>gen_chapter\<close> wrote replaces
  a previous file of that name, also when it raises.
\<close>

type_synonym book = "string \<rightharpoonup> string"

definition output_name :: "nat \<Rightarrow> string" where
  "output_name chapter = ''chapter'' @ str_nat chapter @ ''.tex''"

definition gen_chapter :: "book \<Rightarrow> directory \<Rightarrow> nat \<Rightarrow> string \<Rightarrow> book \<times> error option" where
  "gen_chapter book d chapter chapter_name =
     (case gen_chapter_writes d chapter chapter_name of
        (ws, err) \<Rightarrow> (book(output_name chapter \<mapsto> file_text ws), err))"

text \<open>
  The main loop over the project root: every directory whose name matches
  \<^verbatim>\<open>DIR_RE\<close> is a chapter; the first error ends the run.
\<close>

fun main :: "book \<Rightarrow> directory \<Rightarrow> book \<times> error option" where
  "main book [] = (book, None)"
| "main book ((file, nd) # rest) =
     (case (nd, DIR_RE_match file) of
        (Directory d, Some (g1, g2)) \<Rightarrow>
          (case gen_chapter book d (int_of_digits g1) g2 of
             (book', Some e) \<Rightarrow> (book', Some e)
           | (book', None) \<Rightarrow> main book' rest)
      | _ \<Rightarrow> main book rest)"

section \<open>Notions for stating the properties\<close>

subsection \<open>Entries\<close>

abbreviation section_of :: "entry \<Rightarrow> nat" where
  "section_of e \<equiv> fst (snd e)"

abbreviation subsection_of :: "entry \<Rightarrow> nat option" where
  "subsection_of e \<equiv> fst (snd (snd e))"

abbreviation name_of :: "entry \<Rightarrow> string" where
  "name_of e \<equiv> fst (snd (snd (snd e)))"

abbreviation file_of :: "entry \<Rightarrow> string" where
  "file_of e \<equiv> snd (snd (snd (snd e)))"

text \<open>The entry a file name stands for, with the chapter number of the name itself.\<close>

definition entry_of :: "string \<Rightarrow> entry option" where
  "entry_of file =
     (case FILE_RE_match file of
        None \<Rightarrow> None
      | Some (g1, g2, g3, g4) \<Rightarrow>
          Some (int_of_digits g1, int_of_digits g2, map_option int_of_digits g3, g4, file))"

text \<open>A name that matches the pattern with another chapter number than the directory's.\<close>

definition misplaced :: "nat \<Rightarrow> string \<Rightarrow> bool" where
  "misplaced chapter file =
     (case FILE_RE_match file of
        None \<Rightarrow> False
      | Some (g1, g2, g3, g4) \<Rightarrow> int_of_digits g1 \<noteq> chapter)"

definition entries :: "directory \<Rightarrow> entry list" where
  "entries d = List.map_filter entry_of (listdir d)"

text \<open>
  Two entries of one chapter and section, one with and one without a subsection number:
  the pairs whose comparison raises.
\<close>

fun clash :: "entry \<Rightarrow> entry \<Rightarrow> bool" where
  "clash (c1, s1, u1, n1, f1) (c2, s2, u2, n2, f2) =
     (c1 = c2 \<and> s1 = s2 \<and> (u1 = None) \<noteq> (u2 = None))"

definition mixed :: "entry list \<Rightarrow> bool" where
  "mixed es = list_ex (\<lambda>a. list_ex (clash a) es) es"

subsection \<open>Reading the output\<close>

text \<open>The section numbers of the \<^verbatim>\<open>\setcounter{section}\<close> lines, in order.\<close>

fun section_number :: "chunk \<Rightarrow> nat list" where
  "section_number (SetSectionCounter n) = [n]"
| "section_number _ = []"

definition section_numbers :: "chunk list \<Rightarrow> nat list" where
  "section_numbers ws = concat (map section_number ws)"

text \<open>
  The section headers in order, each with the section number of the
  \<^verbatim>\<open>\setcounter{section}\<close> line that follows it.
\<close>

fun section_headers :: "chunk list \<Rightarrow> (string \<times> nat) list" where
  "section_headers (SectionHeader t # SetSectionCounter s # ws) = (t, s) # section_headers ws"
| "section_headers (w # ws) = section_headers ws"
| "section_headers [] = []"

fun is_section_header :: "chunk \<Rightarrow> bool" where
  "is_section_header (SectionHeader t) = True"
| "is_section_header _ = False"

text \<open>The texts of the subsection headers, in order.\<close>

fun subsection_header :: "chunk \<Rightarrow> string list" where
  "subsection_header (SubsectionHeader t) = [t]"
| "subsection_header _ = []"

definition subsection_headers :: "chunk list \<Rightarrow> string list" where
  "subsection_headers ws = concat (map subsection_header ws)"

text \<open>
  The texts that stand between a \<^verbatim>\<open>\begin{lstlisting}\<close> line and an
  \<^verbatim>\<open>\end{lstlisting}\<close> line, in order, and all the texts copied from source files.
\<close>

fun listings :: "chunk list \<Rightarrow> string list" where
  "listings (BeginListing # Contents t # EndListing # ws) = t # listings ws"
| "listings (w # ws) = listings ws"
| "listings [] = []"

fun contents_of :: "chunk \<Rightarrow> string list" where
  "contents_of (Contents t) = [t]"
| "contents_of _ = []"

definition all_contents :: "chunk list \<Rightarrow> string list" where
  "all_contents ws = concat (map contents_of ws)"

text \<open>A file name that matches the pattern with a section number of at least 1.\<close>

definition listed :: "string \<Rightarrow> bool" where
  "listed file =
     (case FILE_RE_match file of
        None \<Rightarrow> False
      | Some (g1, g2, g3, g4) \<Rightarrow> 1 \<le> int_of_digits g2)"

subsection \<open>Chapters of a root and enumeration orders\<close>






section \<open>Properties\<close>

subsection \<open>Sorting\<close>

lemma subsection_lt_Inl:
  "subsection_lt u v = Inl e \<longleftrightarrow> e = TypeError \<and> (u = None \<or> v = None)"
  by (cases u; cases v) auto

lemma subsection_lt_Inr:
  "subsection_lt u v = Inr r \<longleftrightarrow> (\<exists>a b. u = Some a \<and> v = Some b \<and> r = (a < b))"
  by (cases u; cases v) auto

text \<open>
  A comparison that returns agrees with the lexicographic order of the tuples, in which
  \<open>None\<close> is below every number; it raises exactly on a clash.
\<close>

lemma entry_lt_Inr: "entry_lt a b = Inr r \<Longrightarrow> r = (a < b)"
  by (cases a; cases b) (auto split: if_splits simp: subsection_lt_Inr)

lemma entry_lt_Inl: "entry_lt a b = Inl e \<longleftrightarrow> e = TypeError \<and> clash a b"
  by (cases a; cases b) (auto split: if_splits simp: subsection_lt_Inl dest: not_sym)

lemma clash_sym: "clash a b = clash b a"
  by (cases a; cases b) auto

lemma insert_py_Inr: "insert_py x ys = Inr zs \<Longrightarrow> zs = insort x ys"
  by (induction ys arbitrary: zs) (auto split: sum.splits bool.splits dest: entry_lt_Inr)

lemma sorted_py_Inr: "sorted_py xs = Inr ys \<Longrightarrow> ys = sort xs"
  by (induction xs arbitrary: ys) (auto split: sum.splits dest: insert_py_Inr)

lemma insert_py_Inl: "insert_py x ys = Inl e \<Longrightarrow> e = TypeError \<and> list_ex (clash x) ys"
  by (induction ys) (auto split: sum.splits bool.splits simp: entry_lt_Inl clash_sym)

lemma sorted_py_Inl: "sorted_py xs = Inl e \<Longrightarrow> e = TypeError \<and> mixed xs"
proof (induction xs)
  case Nil
  then show ?case by simp
next
  case (Cons x xs)
  show ?case
  proof (cases "sorted_py xs")
    case (Inl e')
    with Cons show ?thesis by (auto simp: mixed_def list_ex_iff)
  next
    case (Inr ys)
    with Cons.prems have "insert_py x ys = Inl e" by simp
    then have "e = TypeError" and "list_ex (clash x) ys" by (auto dest: insert_py_Inl)
    moreover have "set ys = set xs" using sorted_py_Inr [OF Inr] by simp
    ultimately show ?thesis by (auto simp: mixed_def list_ex_iff)
  qed
qed

text \<open>
  Between two clashing entries of a sorted list lies no entry that clashes with neither:
  the entries of one chapter and section are contiguous.
\<close>

lemma between_clash:
  assumes "x \<le> y" "y \<le> b" "clash x b" "\<not> clash y x"
  shows "clash y b"
  using assms by (cases x; cases y; cases b) (auto split: if_splits)

lemma insert_py_raises:
  assumes "sorted ys" and "\<not> mixed ys" and "list_ex (clash x) ys"
  shows "insert_py x ys = Inl TypeError"
  using assms
proof (induction ys)
  case Nil
  then show ?case by simp
next
  case (Cons y ys)
  show ?case
  proof (cases "entry_lt y x")
    case (Inl e)
    then have "e = TypeError" by (simp add: entry_lt_Inl)
    with Inl show ?thesis by simp
  next
    case (Inr r)
    then have r: "r = (y < x)" by (rule entry_lt_Inr)
    from Inr have nc: "\<not> clash y x" using entry_lt_Inl [of y x] by auto
    with Cons.prems(3) obtain b where b: "b \<in> set ys" "clash x b"
      by (auto simp: list_ex_iff clash_sym)
    have nm: "\<not> mixed ys" using Cons.prems(2) by (auto simp: mixed_def list_ex_iff)
    show ?thesis
    proof (cases r)
      case True
      have "insert_py x ys = Inl TypeError"
        using Cons.IH Cons.prems(1) nm b by (auto simp: list_ex_iff)
      with Inr True show ?thesis by simp
    next
      case False
      with r have "x \<le> y" by simp
      moreover have "y \<le> b" using Cons.prems(1) b by auto
      ultimately have "clash y b" using b nc by (blast intro: between_clash)
      with b have "mixed (y # ys)" by (auto simp: mixed_def list_ex_iff)
      with Cons.prems(2) show ?thesis by simp
    qed
  qed
qed

lemma sorted_py_raises: "mixed xs \<Longrightarrow> sorted_py xs = Inl TypeError"
proof (induction xs)
  case Nil
  then show ?case by (simp add: mixed_def)
next
  case (Cons x xs)
  show ?case
  proof (cases "sorted_py xs")
    case (Inl e)
    then show ?thesis by (auto dest: sorted_py_Inl)
  next
    case (Inr ys)
    then have ys: "ys = sort xs" by (rule sorted_py_Inr)
    have nm: "\<not> mixed xs" using Cons.IH Inr by auto
    have "\<not> clash x x" by (cases x) auto
    with Cons.prems nm have "list_ex (clash x) xs"
      by (auto simp: mixed_def list_ex_iff clash_sym)
    then have "list_ex (clash x) ys" using ys by (simp add: list_ex_iff)
    moreover have "\<not> mixed ys" using nm ys by (simp add: mixed_def list_ex_iff)
    moreover have "sorted ys" using ys by simp
    ultimately have "insert_py x ys = Inl TypeError" by (simp add: insert_py_raises)
    with Inr show ?thesis by simp
  qed
qed

text \<open>
  So the sort raises iff some section mixes entries with and without a subsection
  number, whatever the order of the list, and otherwise returns the sorted list. Any
  sorting algorithm that compares by \<^verbatim>\<open><\<close> has to compare the last entry without and
  the first entry with a subsection number of such a section, which are neighbours in
  the result.
\<close>

lemma sorted_py_eq: "sorted_py xs = (if mixed xs then Inl TypeError else Inr (sort xs))"
proof (cases "sorted_py xs")
  case (Inl e)
  then show ?thesis by (auto dest: sorted_py_Inl)
next
  case (Inr ys)
  then show ?thesis using sorted_py_raises [of xs] by (auto dest: sorted_py_Inr)
qed

text \<open>
  The order \<open>sort\<close> uses on entries is the lexicographic order of the tuple, in
  which an absent subsection number is below every number.
\<close>

lemma entry_less_eq_iff:
  "((c1, s1, u1, n1, f1) :: entry) \<le> (c2, s2, u2, n2, f2) \<longleftrightarrow>
     c1 < c2 \<or> c1 = c2 \<and> (s1 < s2 \<or> s1 = s2 \<and> (u1 < u2 \<or> u1 = u2 \<and>
       (n1 < n2 \<or> n1 = n2 \<and> f1 \<le> f2)))"
  by auto

lemma subsection_order: "(None :: nat option) < Some k" "(Some j < Some k) = (j < k)"
  by simp_all

subsection \<open>The two loops\<close>

lemma collect_entries_eq:
  "collect_entries chapter files =
     (if list_ex (misplaced chapter) files then Inl AssertionError
      else Inr (List.map_filter entry_of files))"
proof (induction files)
  case Nil
  then show ?case by (simp add: List.map_filter_simps)
next
  case (Cons f fs)
  show ?case
  proof (cases "FILE_RE_match f")
    case None
    then have "entry_of f = None" and "\<not> misplaced chapter f"
      by (simp_all add: entry_of_def misplaced_def)
    with None Cons show ?thesis by (simp add: List.map_filter_simps)
  next
    case (Some g)
    obtain g1 g2 g3 g4 where g: "g = (g1, g2, g3, g4)" by (cases g)
    have "entry_of f =
        Some (int_of_digits g1, int_of_digits g2, map_option int_of_digits g3, g4, f)"
      and "misplaced chapter f = (int_of_digits g1 \<noteq> chapter)"
      using Some g by (simp_all add: entry_of_def misplaced_def)
    with Some g Cons show ?thesis by (auto simp: List.map_filter_simps)
  qed
qed

lemma entries_chapter:
  "\<not> list_ex (misplaced chapter) files \<Longrightarrow> e \<in> set (List.map_filter entry_of files)
     \<Longrightarrow> fst e = chapter"
  by (auto simp: list_ex_iff misplaced_def entry_of_def List.map_filter_def split: option.splits)

text \<open>The three ways a chapter ends: a misplaced file, a mixed section, or the loop.\<close>

lemma gen_chapter_writes_eq:
  "gen_chapter_writes d chapter chapter_name =
     (if list_ex (misplaced chapter) (listdir d) then
        ([ChapterTitle (replace_char CHR ''-'' CHR '' '' chapter_name)], Some AssertionError)
      else if mixed (entries d) then
        ([ChapterTitle (replace_char CHR ''-'' CHR '' '' chapter_name)], Some TypeError)
      else
        (ChapterTitle (replace_char CHR ''-'' CHR '' '' chapter_name)
           # fst (write_entries d None (sort (entries d))),
         snd (write_entries d None (sort (entries d)))))"
  by (simp add: gen_chapter_writes_def collect_entries_eq sorted_py_eq entries_def
      split: prod.splits)

lemma section_numbers_simps [simp]:
  "section_numbers [] = []"
  "section_numbers (w # ws) = section_number w @ section_numbers ws"
  "section_numbers (ws @ ws') = section_numbers ws @ section_numbers ws'"
  by (simp_all add: section_numbers_def)

lemma write_entries_skip:
  "write_entries d prev es = write_entries d prev (filter (\<lambda>e. \<not> section_of e < 1) es)"
  by (induction es arbitrary: prev) (auto simp: Let_def split: sum.splits prod.splits)

lemma section_numbers_Cons_read:
  "\<not> s < 1 \<Longrightarrow> read_file d f = Inr t \<Longrightarrow>
   section_numbers (fst (write_entries d prev ((c, s, u, n, f) # es))) =
     (if Some s \<noteq> prev then [s] else []) @ section_numbers (fst (write_entries d (Some s) es))"
  by (simp add: Let_def case_prod_beta)

lemma section_numbers_Cons_fail:
  "\<not> s < 1 \<Longrightarrow> read_file d f = Inl err \<Longrightarrow>
   section_numbers (fst (write_entries d prev ((c, s, u, n, f) # es))) =
     (if Some s \<noteq> prev then [s] else [])"
  by (simp add: Let_def case_prod_beta)

lemma section_numbers_Cons_skip:
  "s < 1 \<Longrightarrow>
   section_numbers (fst (write_entries d prev ((c, s, u, n, f) # es))) =
     section_numbers (fst (write_entries d prev es))"
  by simp

lemma write_entries_sections:
  assumes "sorted (map section_of es)"
    and "\<forall>e\<in>set es. \<forall>p. prev = Some p \<longrightarrow> p \<le> section_of e"
  shows "sorted_wrt (<) (section_numbers (fst (write_entries d prev es))) \<and>
         (\<forall>n\<in>set (section_numbers (fst (write_entries d prev es))).
             1 \<le> n \<and> (\<forall>p. prev = Some p \<longrightarrow> p < n))"
  using assms
proof (induction es arbitrary: prev)
  case Nil
  then show ?case by simp
next
  case (Cons e es)
  obtain c s u n f where e: "e = (c, s, u, n, f)" by (cases e)
  have srt: "sorted (map section_of es)" using Cons.prems(1) by simp
  show ?case
  proof (cases "s < 1")
    case True
    have "\<forall>e\<in>set es. \<forall>p. prev = Some p \<longrightarrow> p \<le> section_of e"
      using Cons.prems(2) by simp
    from Cons.IH [OF srt this] show ?thesis
      unfolding e section_numbers_Cons_skip [OF True] .
  next
    case False
    have ge: "\<forall>e\<in>set es. \<forall>p. Some s = Some p \<longrightarrow> p \<le> section_of e"
      using Cons.prems(1) e by auto
    define ns where "ns = section_numbers (fst (write_entries d (Some s) es))"
    have IH1: "sorted_wrt (<) ns" and IH2: "\<forall>n\<in>set ns. 1 \<le> n \<and> s < n"
      using Cons.IH [OF srt ge] by (simp_all add: ns_def)
    have ps: "\<forall>p. prev = Some p \<longrightarrow> p \<le> s" using Cons.prems(2) e by simp
    have s1: "1 \<le> s" using False by simp
    show ?thesis
    proof (cases "read_file d f")
      case (Inl err)
      show ?thesis
        unfolding e section_numbers_Cons_fail [OF False Inl]
        using ps s1 by auto
    next
      case (Inr t)
      have sw: "sorted_wrt (<) ((if Some s \<noteq> prev then [s] else []) @ ns)"
        using IH1 IH2 by (auto simp: sorted_wrt_append)
      have "\<forall>n\<in>set ((if Some s \<noteq> prev then [s] else []) @ ns).
              1 \<le> n \<and> (\<forall>p. prev = Some p \<longrightarrow> p < n)"
      proof
        fix k assume k: "k \<in> set ((if Some s \<noteq> prev then [s] else []) @ ns)"
        show "1 \<le> k \<and> (\<forall>p. prev = Some p \<longrightarrow> p < k)"
        proof (cases "k \<in> set ns")
          case True
          with IH2 have "1 \<le> k" "s < k" by auto
          with ps show ?thesis by (auto intro: le_less_trans)
        next
          case False
          with k have "k = s" "Some s \<noteq> prev" by (auto split: if_splits)
          with ps s1 show ?thesis by (auto simp: le_less)
        qed
      qed
      with sw show ?thesis
        unfolding e section_numbers_Cons_read [OF False Inr] ns_def by blast
    qed
  qed
qed

lemma section_headers_Cons_read:
  "\<not> s < 1 \<Longrightarrow> read_file d f = Inr t \<Longrightarrow>
   section_headers (fst (write_entries d prev ((c, s, u, n, f) # es))) =
     (if Some s \<noteq> prev then [(section_title c s, s)] else [])
     @ section_headers (fst (write_entries d (Some s) es))"
  by (simp add: Let_def case_prod_beta)

lemma section_headers_Cons_fail:
  "\<not> s < 1 \<Longrightarrow> read_file d f = Inl err \<Longrightarrow>
   section_headers (fst (write_entries d prev ((c, s, u, n, f) # es))) =
     (if Some s \<noteq> prev then [(section_title c s, s)] else [])"
  by (simp add: Let_def case_prod_beta)

lemma section_headers_write_entries:
  assumes "\<forall>e\<in>set es. fst e = chapter"
  shows "map snd (section_headers (fst (write_entries d prev es)))
           = section_numbers (fst (write_entries d prev es)) \<and>
         list_all (\<lambda>(t, s). t = section_title chapter s)
           (section_headers (fst (write_entries d prev es))) \<and>
         length (section_headers (fst (write_entries d prev es)))
           = length (filter is_section_header (fst (write_entries d prev es)))"
  using assms
proof (induction es arbitrary: prev)
  case Nil
  then show ?case by simp
next
  case (Cons e es)
  obtain c s u n f where e: "e = (c, s, u, n, f)" by (cases e)
  have c: "c = chapter" using Cons.prems e by simp
  have rest: "\<forall>e\<in>set es. fst e = chapter" using Cons.prems by simp
  show ?case
  proof (cases "s < 1")
    case True
    with Cons.IH [OF rest, of prev] e show ?thesis by simp
  next
    case False
    show ?thesis
    proof (cases "read_file d f")
      case (Inl err)
      with False e c show ?thesis by (simp add: Let_def)
    next
      case (Inr t)
      show ?thesis
      proof (cases "Some s = prev")
        case True
        with Inr False e c Cons.IH [OF rest, of prev] show ?thesis
          by (simp add: Let_def case_prod_beta)
      next
        case neq: False
        with Inr False e c Cons.IH [OF rest, of "Some s"] show ?thesis
          by (simp add: Let_def case_prod_beta)
      qed
    qed
  qed
qed

lemma sorted_sections:
  assumes "sorted (es :: entry list)" and "\<forall>e\<in>set es. fst e = chapter"
  shows "sorted (map section_of es)"
proof -
  have "sorted_wrt (\<lambda>a b. section_of a \<le> section_of b) es"
  proof (rule sorted_wrt_mono_rel [of es "(\<le>)"])
    fix a b assume "a \<in> set es" "b \<in> set es" "a \<le> b"
    with assms(2) have "fst a = fst b" by simp
    with \<open>a \<le> b\<close> show "section_of a \<le> section_of b"
      by (cases a; cases b) auto
  next
    show "sorted es" by (rule assms(1))
  qed
  then show ?thesis by (simp add: sorted_map)
qed

lemma gen_chapter_writes_sections:
  "map snd (section_headers (fst (gen_chapter_writes d chapter chapter_name)))
     = section_numbers (fst (gen_chapter_writes d chapter chapter_name)) \<and>
   list_all (\<lambda>(t, s). t = section_title chapter s)
     (section_headers (fst (gen_chapter_writes d chapter chapter_name))) \<and>
   length (section_headers (fst (gen_chapter_writes d chapter chapter_name)))
     = length (filter is_section_header (fst (gen_chapter_writes d chapter chapter_name))) \<and>
   sorted_wrt (<) (section_numbers (fst (gen_chapter_writes d chapter chapter_name))) \<and>
   list_all (\<lambda>n. 1 \<le> n) (section_numbers (fst (gen_chapter_writes d chapter chapter_name)))"
proof (cases "list_ex (misplaced chapter) (listdir d) \<or> mixed (entries d)")
  case True
  then show ?thesis by (auto simp: gen_chapter_writes_eq)
next
  case False
  let ?es = "sort (entries d)"
  have ch: "\<forall>e\<in>set ?es. fst e = chapter"
    using False entries_chapter [of "chapter" "listdir d"] by (auto simp: entries_def)
  have "sorted (map section_of ?es)" using ch by (intro sorted_sections) auto
  then have a: "sorted_wrt (<) (section_numbers (fst (write_entries d None ?es)))"
    and b: "\<forall>n\<in>set (section_numbers (fst (write_entries d None ?es))). 1 \<le> n"
    using write_entries_sections [of "?es" None d] by auto
  from b have b': "list_all (\<lambda>n. 1 \<le> n) (section_numbers (fst (write_entries d None ?es)))"
    by (simp add: list_all_iff)
  from section_headers_write_entries [OF ch, of d None] a b' False show ?thesis
    by (simp add: gen_chapter_writes_eq)
qed

subsection \<open>A misplaced file\<close>

lemma misplaced_stops:
  assumes "(file, nd) \<in> set d" and "FILE_RE_match file = Some (g1, g2, g3, g4)"
    and "int_of_digits g1 \<noteq> chapter"
  shows "gen_chapter_writes d chapter chapter_name =
    ([ChapterTitle (replace_char CHR ''-'' CHR '' '' chapter_name)], Some AssertionError)"
proof -
  have "misplaced chapter file" using assms(2,3) by (simp add: misplaced_def)
  moreover have "file \<in> set (listdir d)" using assms(1) by (force simp: listdir_def)
  ultimately have "list_ex (misplaced chapter) (listdir d)" by (auto simp: list_ex_iff)
  then show ?thesis by (simp add: gen_chapter_writes_eq)
qed


subsection \<open>A chapter that is generated without error\<close>

lemma subsection_headers_simps [simp]:
  "subsection_headers [] = []"
  "subsection_headers (w # ws) = subsection_header w @ subsection_headers ws"
  "subsection_headers (ws @ ws') = subsection_headers ws @ subsection_headers ws'"
  by (simp_all add: subsection_headers_def)

lemma all_contents_simps [simp]:
  "all_contents [] = []"
  "all_contents (w # ws) = contents_of w @ all_contents ws"
  "all_contents (ws @ ws') = all_contents ws @ all_contents ws'"
  by (simp_all add: all_contents_def)

lemma write_entries_success:
  assumes "snd (write_entries d prev es) = None"
  shows "subsection_headers (fst (write_entries d prev es)) =
           map (\<lambda>e. replace_char CHR ''_'' CHR '' '' (name_of e))
             (filter (\<lambda>e. 1 \<le> section_of e \<and> truthy (subsection_of e)) es)"
    and "map Inr (listings (fst (write_entries d prev es))) =
           map (\<lambda>e. read_file d (file_of e)) (filter (\<lambda>e. 1 \<le> section_of e) es)"
    and "listings (fst (write_entries d prev es)) = all_contents (fst (write_entries d prev es))"
  using assms
proof (induction es arbitrary: prev)
  case Nil
  {
    case 1 show ?case by simp
  next
    case 2 show ?case by simp
  next
    case 3 show ?case by simp
  }
next
  case (Cons e es)
  obtain c s u n f where e: "e = (c, s, u, n, f)" by (cases e)
  {
    case 1 
    show ?case
    proof (cases "s < 1")
      case True
      with Cons.IH(1) [of prev] 1 e show ?thesis by simp
    next
      case False
      show ?thesis
      proof (cases "read_file d f")
        case (Inl err)
        with False 1 e show ?thesis by (simp add: Let_def)
      next
        case (Inr t)
        with False 1 e have "snd (write_entries d (Some s) es) = None"
          by (simp add: Let_def case_prod_beta)
        from Cons.IH(1) [OF this] Inr False e show ?thesis
          by (auto simp: Let_def case_prod_beta)
      qed
    qed
  next
    case 2
    show ?case
    proof (cases "s < 1")
      case True
      with Cons.IH(2) [of prev] 2 e show ?thesis by simp
    next
      case False
      show ?thesis
      proof (cases "read_file d f")
        case (Inl err)
        with False 2 e show ?thesis by (simp add: Let_def)
      next
        case (Inr t)
        with False 2 e have "snd (write_entries d (Some s) es) = None"
          by (simp add: Let_def case_prod_beta)
        from Cons.IH(2) [OF this] Inr False e show ?thesis
          by (auto simp: Let_def case_prod_beta)
      qed
    qed
  next
    case 3
    show ?case
    proof (cases "s < 1")
      case True
      with Cons.IH(3) [of prev] 3 e show ?thesis by simp
    next
      case False
      show ?thesis
      proof (cases "read_file d f")
        case (Inl err)
        with False 3 e show ?thesis by (simp add: Let_def)
      next
        case (Inr t)
        with False 3 e have "snd (write_entries d (Some s) es) = None"
          by (simp add: Let_def case_prod_beta)
        from Cons.IH(3) [OF this] Inr False e show ?thesis
          by (auto simp: Let_def case_prod_beta)
      qed
    qed
  }
qed

lemma gen_chapter_writes_success:
  assumes "gen_chapter_writes d chapter chapter_name = (ws, None)"
  shows "collect_entries chapter (listdir d) = Inr (entries d)"
    and "\<not> mixed (entries d)"
    and "ws = ChapterTitle (replace_char CHR ''-'' CHR '' '' chapter_name)
            # fst (write_entries d None (sort (entries d)))"
    and "snd (write_entries d None (sort (entries d))) = None"
  using assms
  by (auto simp: gen_chapter_writes_eq collect_entries_eq entries_def split: if_splits)

lemma sorted_section_subsection:
  assumes "sorted (es :: entry list)" and "\<forall>e\<in>set es. fst e = chapter"
  shows "sorted (map (\<lambda>e. (section_of e, subsection_of e)) es)"
proof -
  have "sorted_wrt (\<lambda>a b. (section_of a, subsection_of a) \<le> (section_of b, subsection_of b)) es"
  proof (rule sorted_wrt_mono_rel [of es "(\<le>)"])
    fix a b assume "a \<in> set es" "b \<in> set es" "a \<le> b"
    with assms(2) have "fst a = fst b" by simp
    with \<open>a \<le> b\<close> show "(section_of a, subsection_of a) \<le> (section_of b, subsection_of b)"
      by (cases a; cases b) auto
  next
    show "sorted es" by (rule assms(1))
  qed
  then show ?thesis by (simp add: sorted_map)
qed

lemma listed_entries:
  "map (\<lambda>e. g (file_of e)) (filter (\<lambda>e. 1 \<le> section_of e) (List.map_filter entry_of fs))
     = map g (filter listed fs)"
proof (induction fs)
  case Nil
  then show ?case by (simp add: List.map_filter_simps)
next
  case (Cons f fs)
  show ?case
  proof (cases "FILE_RE_match f")
    case None
    then have "entry_of f = None" "\<not> listed f" by (simp_all add: entry_of_def listed_def)
    with Cons show ?thesis by (simp add: List.map_filter_simps)
  next
    case (Some g')
    obtain g1 g2 g3 g4 where g: "g' = (g1, g2, g3, g4)" by (cases g')
    have "entry_of f =
        Some (int_of_digits g1, int_of_digits g2, map_option int_of_digits g3, g4, f)"
      and "listed f = (1 \<le> int_of_digits g2)"
      using Some g by (simp_all add: entry_of_def listed_def)
    with Cons show ?thesis by (simp add: List.map_filter_simps)
  qed
qed

lemma read_file_node:
  assumes "distinct (map fst d)" and "(file, nd) \<in> set d"
  shows "read_file d file = node_text nd"
  using assms by (simp add: read_file_def)

subsection \<open>Enumeration orders\<close>




lemma write_entries_cong:
  assumes "\<And>f. read_file d' f = read_file d f"
  shows "write_entries d' prev es = write_entries d prev es"
  by (induction es arbitrary: prev) (auto simp: assms Let_def split: sum.splits)

lemma mset_map_filter:
  "mset xs = mset ys \<Longrightarrow> mset (List.map_filter f xs) = mset (List.map_filter f ys)"
  by (simp add: List.map_filter_def)

lemma gen_chapter_writes_perm:
  assumes "mset d' = mset d" and "distinct (map fst d)"
  shows "gen_chapter_writes d' chapter chapter_name = gen_chapter_writes d chapter chapter_name"
proof -
  have l: "mset (listdir d') = mset (listdir d)"
    using assms(1) by (simp add: listdir_def)
  then have sl: "set (listdir d') = set (listdir d)" by (rule mset_eq_setD)
  have e: "mset (entries d') = mset (entries d)"
    unfolding entries_def using l by (rule mset_map_filter)
  then have se: "set (entries d') = set (entries d)" by (rule mset_eq_setD)
  have srt: "sort (entries d') = sort (entries d)"
    using e by (intro properties_for_sort) simp_all
  have "distinct (map fst d')"
    using assms l by (metis listdir_def mset_eq_imp_distinct_iff)
  moreover have "set d' = set d" using assms(1) by (rule mset_eq_setD)
  ultimately have "map_of d' = map_of d" using assms(2) by (simp add: map_of_inject_set)
  then have "\<And>f. read_file d' f = read_file d f" by (simp add: read_file_def)
  then have w: "\<And>prev es. write_entries d' prev es = write_entries d prev es"
    by (rule write_entries_cong)
  have "list_ex (misplaced chapter) (listdir d') = list_ex (misplaced chapter) (listdir d)"
    by (simp add: list_ex_iff sl)
  moreover have "mixed (entries d') = mixed (entries d)"
    by (simp add: mixed_def list_ex_iff se)
  ultimately show ?thesis by (simp add: gen_chapter_writes_eq srt w)
qed









lemma truthy_iff: "truthy u = (case u of None \<Rightarrow> False | Some k \<Rightarrow> 1 \<le> k)"
  by (cases u) auto





section \<open>The claims\<close>

text \<open>
  C1. The example of the specification: the chapter directory \<^verbatim>\<open>1-intro\<close> holds
  \<^verbatim>\<open>1.1_scan.cpp\<close> with the text \<^verbatim>\<open>int x;\<close> and \<^verbatim>\<open>1.2.1_probe_sort.cpp\<close> with the
  text \<^verbatim>\<open>int y;\<close>. In whichever order the two files are enumerated, generation
  writes, in this order, the title line for "intro", the section header
  "Array Transformations" and the listing of \<^verbatim>\<open>int x;\<close>, then the section header
  "Array Queries", the reset of the subsection counter, the subsection header
  "probe sort" and the listing of \<^verbatim>\<open>int y;\<close>; the run of the main loop puts this
  text into \<^verbatim>\<open>chapter1.tex\<close> and raises nothing. The last equation spells the text
  out.
\<close>

theorem example_chapter1:
  assumes "mset d = mset [(''1.1_scan.cpp'', RegularFile ''int x;''),
                          (''1.2.1_probe_sort.cpp'', RegularFile ''int y;'')]"
  shows "gen_chapter_writes d 1 ''intro''
   = ([ChapterTitle ''intro'',
       SectionHeader ''Array Transformations'', SetSectionCounter 1,
       BeginListing, Contents ''int x;'', EndListing,
       SectionHeader ''Array Queries'', SetSectionCounter 2, ResetSubsectionCounter,
       SubsectionHeader ''probe sort'',
       BeginListing, Contents ''int y;'', EndListing], None)
   \<and> main Map.empty [(''1-intro'', Directory d)]
     = (Map.empty(''chapter1.tex'' \<mapsto> file_text
         [ChapterTitle ''intro'',
          SectionHeader ''Array Transformations'', SetSectionCounter 1,
          BeginListing, Contents ''int x;'', EndListing,
          SectionHeader ''Array Queries'', SetSectionCounter 2, ResetSubsectionCounter,
          SubsectionHeader ''probe sort'',
          BeginListing, Contents ''int y;'', EndListing]), None)
   \<and> file_text
         [ChapterTitle ''intro'',
          SectionHeader ''Array Transformations'', SetSectionCounter 1,
          BeginListing, Contents ''int x;'', EndListing,
          SectionHeader ''Array Queries'', SetSectionCounter 2, ResetSubsectionCounter,
          SubsectionHeader ''probe sort'',
          BeginListing, Contents ''int y;'', EndListing]
     = concat
        [backslash # ''chapter{intro}'' @ [newline],
         newline # backslash # ''section{Array Transformations}'' @ [newline],
         backslash # ''setcounter{section}{1}'' @ [newline],
         backslash # ''begin{lstlisting}'' @ [newline],
         ''int x;'',
         backslash # ''end{lstlisting}'' @ [newline],
         newline # backslash # ''section{Array Queries}'' @ [newline],
         backslash # ''setcounter{section}{2}'' @ [newline],
         backslash # ''setcounter{subsection}{0}'' @ [newline],
         backslash # ''subsection{probe sort}'' @ [newline],
         backslash # ''begin{lstlisting}'' @ [newline],
         ''int y;'',
         backslash # ''end{lstlisting}'' @ [newline]]"
proof -
  let ?d = "[(''1.1_scan.cpp'', RegularFile ''int x;''),
      (''1.2.1_probe_sort.cpp'', RegularFile ''int y;'')]"
  let ?ws = "[ChapterTitle ''intro'',
       SectionHeader ''Array Transformations'', SetSectionCounter 1,
       BeginListing, Contents ''int x;'', EndListing,
       SectionHeader ''Array Queries'', SetSectionCounter 2, ResetSubsectionCounter,
       SubsectionHeader ''probe sort'',
       BeginListing, Contents ''int y;'', EndListing]"
  have dd: "distinct (map fst ?d)" by simp
  have "gen_chapter_writes ?d 1 ''intro'' = (?ws, None)"
    by code_simp
  then have w: "gen_chapter_writes d 1 ''intro'' = (?ws, None)"
    by (simp only: gen_chapter_writes_perm [OF assms dd])
  have m: "DIR_RE_match ''1-intro'' = Some (''1'', ''intro'')" by code_simp
  have i: "int_of_digits ''1'' = 1" by code_simp
  have n: "output_name 1 = ''chapter1.tex''" by code_simp
  have g: "gen_chapter Map.empty d 1 ''intro''
      = (Map.empty(''chapter1.tex'' \<mapsto> file_text ?ws), None)"
    by (simp only: gen_chapter_def w n prod.case)
  have r: "main Map.empty [(''1-intro'', Directory d)]
      = (Map.empty(''chapter1.tex'' \<mapsto> file_text ?ws), None)"
    by (simp only: main.simps m i g prod.case node.case option.case)
  have t: "file_text ?ws = concat
        [backslash # ''chapter{intro}'' @ [newline],
         newline # backslash # ''section{Array Transformations}'' @ [newline],
         backslash # ''setcounter{section}{1}'' @ [newline],
         backslash # ''begin{lstlisting}'' @ [newline],
         ''int x;'',
         backslash # ''end{lstlisting}'' @ [newline],
         newline # backslash # ''section{Array Queries}'' @ [newline],
         backslash # ''setcounter{section}{2}'' @ [newline],
         backslash # ''setcounter{subsection}{0}'' @ [newline],
         backslash # ''subsection{probe sort}'' @ [newline],
         backslash # ''begin{lstlisting}'' @ [newline],
         ''int y;'',
         backslash # ''end{lstlisting}'' @ [newline]]"
    by code_simp
  from w r t show ?thesis by (intro conjI)
qed

theorem example_chapter1_witness:
  "gen_chapter_writes
     [(''1.2.1_probe_sort.cpp'', RegularFile ''int y;''),
      (''1.1_scan.cpp'', RegularFile ''int x;'')] 1 ''intro''
   = ([ChapterTitle ''intro'',
       SectionHeader ''Array Transformations'', SetSectionCounter 1,
       BeginListing, Contents ''int x;'', EndListing,
       SectionHeader ''Array Queries'', SetSectionCounter 2, ResetSubsectionCounter,
       SubsectionHeader ''probe sort'',
       BeginListing, Contents ''int y;'', EndListing], None)
   \<and> gen_chapter_writes
     [(''1.1_scan.cpp'', RegularFile ''int x;''),
      (''1.2.1_probe_sort.cpp'', RegularFile ''int y;'')] 1 ''intro''
   = ([ChapterTitle ''intro'',
       SectionHeader ''Array Transformations'', SetSectionCounter 1,
       BeginListing, Contents ''int x;'', EndListing,
       SectionHeader ''Array Queries'', SetSectionCounter 2, ResetSubsectionCounter,
       SubsectionHeader ''probe sort'',
       BeginListing, Contents ''int y;'', EndListing], None)
   \<and> main Map.empty
        [(''1-intro'', Directory
           [(''1.2.1_probe_sort.cpp'', RegularFile ''int y;''),
            (''1.1_scan.cpp'', RegularFile ''int x;'')])]
     = (Map.empty(''chapter1.tex'' \<mapsto> file_text
         [ChapterTitle ''intro'',
          SectionHeader ''Array Transformations'', SetSectionCounter 1,
          BeginListing, Contents ''int x;'', EndListing,
          SectionHeader ''Array Queries'', SetSectionCounter 2, ResetSubsectionCounter,
          SubsectionHeader ''probe sort'',
          BeginListing, Contents ''int y;'', EndListing]), None)"
proof -
  let ?d = "[(''1.1_scan.cpp'', RegularFile ''int x;''),
      (''1.2.1_probe_sort.cpp'', RegularFile ''int y;'')]"
  let ?d' = "[(''1.2.1_probe_sort.cpp'', RegularFile ''int y;''),
      (''1.1_scan.cpp'', RegularFile ''int x;'')]"
  have a: "mset ?d' = mset ?d" by simp
  have b: "mset ?d = mset ?d" by simp
  from example_chapter1 [OF a] example_chapter1 [OF b] show ?thesis by blast
qed

text \<open>
  C5. In every chapter document, also one that an error cut short, the section numbers
  of the section headers are in non-decreasing order and none is below 1; and the loop
  writes for a list of entries exactly what it writes for the list without the entries
  whose section number is below 1, so such an entry gets no header and no listing.
\<close>

theorem sections_in_order_from_one:
  "sorted (map snd (section_headers (fst (gen_chapter_writes d chapter chapter_name))))
   \<and> list_all (\<lambda>(t, s). 1 \<le> s)
         (section_headers (fst (gen_chapter_writes d chapter chapter_name)))
   \<and> write_entries d prev es = write_entries d prev (filter (\<lambda>e. \<not> section_of e < 1) es)"
proof -
  let ?ws = "fst (gen_chapter_writes d chapter chapter_name)"
  note facts = gen_chapter_writes_sections [of d "chapter" chapter_name]
  have eq: "map snd (section_headers ?ws) = section_numbers ?ws" using facts by simp
  have "sorted_wrt (<) (section_numbers ?ws)" using facts by simp
  then have "sorted (section_numbers ?ws)" by (rule strict_sorted_imp_sorted)
  then have a: "sorted (map snd (section_headers ?ws))" by (simp only: eq)
  have "list_all (\<lambda>n. 1 \<le> n) (map snd (section_headers ?ws))"
    using facts by (simp only: eq)
  then have b: "list_all (\<lambda>(t, s). 1 \<le> s) (section_headers ?ws)"
    by (simp add: list_all_iff case_prod_beta)
  from a b write_entries_skip [of d prev es] show ?thesis by (intro conjI)
qed

text \<open>
  C7. Every section header of a chapter document carries the title that the table
  \<open>SECTION_NAMES\<close> has for the chapter and the section number of the header, and the
  empty string when the table has no such key; every section header is followed by its
  section number.
\<close>

theorem section_header_titles:
  "list_all
     (\<lambda>(t, s). t = (case map_of SECTION_NAMES (chapter, s) of Some title \<Rightarrow> title | None \<Rightarrow> []))
     (section_headers (fst (gen_chapter_writes d chapter chapter_name)))
   \<and> length (section_headers (fst (gen_chapter_writes d chapter chapter_name)))
       = length (filter is_section_header (fst (gen_chapter_writes d chapter chapter_name)))"
  using gen_chapter_writes_sections [of d "chapter" chapter_name]
  by (simp add: section_title_def)



text \<open>
  C10. When the assertion fails, the output file of the chapter exists and holds the
  title line, whatever a previous file of that name held.
\<close>

theorem title_written_before_assertion:
  assumes "(file, nd) \<in> set d" and "FILE_RE_match file = Some (g1, g2, g3, g4)"
    and "int_of_digits g1 \<noteq> chapter"
  shows "gen_chapter book d chapter chapter_name =
     (book(output_name chapter \<mapsto>
        backslash # ''chapter{'' @ replace_char CHR ''-'' CHR '' '' chapter_name @ ''}'' @ [newline]),
      Some AssertionError)"
  by (simp add: gen_chapter_def misplaced_stops [OF assms] file_text_def)

theorem title_written_before_assertion_witness:
  "gen_chapter [''chapter3.tex'' \<mapsto> ''previous text'']
     [(''2.1_foo.cpp'', RegularFile ''int x;'')] 3 ''bar''
   = ([''chapter3.tex'' \<mapsto> backslash # ''chapter{bar}'' @ [newline]], Some AssertionError)"
proof -
  have a: "(''2.1_foo.cpp'', RegularFile ''int x;'') \<in> set [(''2.1_foo.cpp'', RegularFile ''int x;'')]"
    by simp
  have b: "FILE_RE_match ''2.1_foo.cpp'' = Some (''2'', ''1'', None, ''foo'')" by code_simp
  have c: "int_of_digits ''2'' \<noteq> 3" by code_simp
  have n: "output_name 3 = ''chapter3.tex''" by code_simp
  have r: "replace_char CHR ''-'' CHR '' '' ''bar'' = ''bar''" by code_simp
  from title_written_before_assertion [OF a b c, of "[''chapter3.tex'' \<mapsto> ''previous text'']" "''bar''"]
  show ?thesis by (simp add: n r)
qed

text \<open>
  C2, as stated, fails: when one section holds an entry without and an entry with a
  subsection number, Python 3 cannot compare \<^verbatim>\<open>None\<close> with a number, the sort raises
  \<^verbatim>\<open>TypeError\<close> and the chapter document holds the title line only.
\<close>

theorem mixed_section_counterexample:
  "collect_entries 1 (listdir [(''1.1_a.cpp'', RegularFile ''int x;''), (''1.1.1_b.cpp'', RegularFile ''int y;'')])
     = Inr [(1, 1, None, ''a'', ''1.1_a.cpp''), (1, 1, Some 1, ''b'', ''1.1.1_b.cpp'')]
   \<and> sorted_py [(1, 1, None, ''a'', ''1.1_a.cpp''), (1, 1, Some 1, ''b'', ''1.1.1_b.cpp'')]
     = Inl TypeError
   \<and> gen_chapter_writes [(''1.1_a.cpp'', RegularFile ''int x;''), (''1.1.1_b.cpp'', RegularFile ''int y;'')] 1 ''intro''
     = ([ChapterTitle ''intro''], Some TypeError)"
  by code_simp

text \<open>
  C2, amended. For every chapter directory whose files all carry the chapter number of
  the directory and in which no section holds both entries with and entries without a
  subsection number, the sort succeeds, and the loop processes the matched entries in
  ascending order of the full tuple (chapter, section, subsection, name, file name):
  the sorted list is ascending and a permutation of the matched entries.
\<close>

theorem processed_in_tuple_order:
  assumes "collect_entries chapter (listdir d) = Inr es" and "\<not> mixed es"
  shows "sorted_py es = Inr (sort es)
    \<and> sorted (sort es) \<and> mset (sort es) = mset es
    \<and> gen_chapter_writes d chapter chapter_name =
        (ChapterTitle (replace_char CHR ''-'' CHR '' '' chapter_name)
           # fst (write_entries d None (sort es)),
         snd (write_entries d None (sort es)))"
  using assms by (simp add: gen_chapter_writes_def sorted_py_eq case_prod_beta)

theorem processed_in_tuple_order_witness:
  "sorted_py [(1, 2, Some 1, ''probe_sort'', ''1.2.1_probe_sort.cpp''), (1, 1, None, ''scan'', ''1.1_scan.cpp'')]
     = Inr [(1, 1, None, ''scan'', ''1.1_scan.cpp''), (1, 2, Some 1, ''probe_sort'', ''1.2.1_probe_sort.cpp'')]
   \<and> sort [(1, 2, Some 1, ''probe_sort'', ''1.2.1_probe_sort.cpp''), (1, 1, None, ''scan'', ''1.1_scan.cpp'') :: entry]
     = [(1, 1, None, ''scan'', ''1.1_scan.cpp''), (1, 2, Some 1, ''probe_sort'', ''1.2.1_probe_sort.cpp'')]
   \<and> gen_chapter_writes
        [(''1.2.1_probe_sort.cpp'', RegularFile ''int y;''), (''1.1_scan.cpp'', RegularFile ''int x;'')]
        1 ''intro''
     = (ChapterTitle ''intro''
         # fst (write_entries
            [(''1.2.1_probe_sort.cpp'', RegularFile ''int y;''), (''1.1_scan.cpp'', RegularFile ''int x;'')]
            None
            [(1, 1, None, ''scan'', ''1.1_scan.cpp''), (1, 2, Some 1, ''probe_sort'', ''1.2.1_probe_sort.cpp'')]),
        snd (write_entries
            [(''1.2.1_probe_sort.cpp'', RegularFile ''int y;''), (''1.1_scan.cpp'', RegularFile ''int x;'')]
            None
            [(1, 1, None, ''scan'', ''1.1_scan.cpp''), (1, 2, Some 1, ''probe_sort'', ''1.2.1_probe_sort.cpp'')]))"
proof -
  let ?d = "[(''1.2.1_probe_sort.cpp'', RegularFile ''int y;''), (''1.1_scan.cpp'', RegularFile ''int x;'')]"
  let ?es = "[(1, 2, Some 1, ''probe_sort'', ''1.2.1_probe_sort.cpp''), (1, 1, None, ''scan'', ''1.1_scan.cpp'')] :: entry list"
  let ?ys = "[(1, 1, None, ''scan'', ''1.1_scan.cpp''), (1, 2, Some 1, ''probe_sort'', ''1.2.1_probe_sort.cpp'')] :: entry list"
  have a: "collect_entries 1 (listdir ?d) = Inr ?es" by code_simp
  have b: "\<not> mixed ?es" by code_simp
  have s: "sorted_py ?es = Inr ?ys" by code_simp
  have r: "replace_char CHR ''-'' CHR '' '' ''intro'' = ''intro''" by code_simp
  note t = processed_in_tuple_order [OF a b, of "''intro''"]
  from t have "sorted_py ?es = Inr (sort ?es)" by (rule conjunct1)
  with s have e: "sort ?es = ?ys" by simp
  from t have "gen_chapter_writes ?d 1 ''intro'' =
        (ChapterTitle (replace_char CHR ''-'' CHR '' '' ''intro'')
           # fst (write_entries ?d None (sort ?es)),
         snd (write_entries ?d None (sort ?es)))" by blast
  then have g: "gen_chapter_writes ?d 1 ''intro'' =
        (ChapterTitle ''intro'' # fst (write_entries ?d None ?ys),
         snd (write_entries ?d None ?ys))" by (simp only: e r)
  from s e g show ?thesis by (intro conjI)
qed

text \<open>
  C9, as stated, fails: the reset of the subsection counter is written under
  \<^verbatim>\<open>if subsection:\<close>, so a section whose first entry has no subsection number gets
  its header without a reset.
\<close>

theorem no_reset_counterexample:
  "gen_chapter_writes [(''1.1_scan.cpp'', RegularFile ''int x;'')] 1 ''intro'' =
     ([ChapterTitle ''intro'', SectionHeader ''Array Transformations'', SetSectionCounter 1,
       BeginListing, Contents ''int x;'', EndListing], None)
   \<and> ResetSubsectionCounter \<notin> set (fst (gen_chapter_writes [(''1.1_scan.cpp'', RegularFile ''int x;'')] 1 ''intro''))"
proof -
  have w: "gen_chapter_writes [(''1.1_scan.cpp'', RegularFile ''int x;'')] 1 ''intro'' =
     ([ChapterTitle ''intro'', SectionHeader ''Array Transformations'', SetSectionCounter 1,
       BeginListing, Contents ''int x;'', EndListing], None)"
    by code_simp
  show ?thesis unfolding w by simp
qed

text \<open>
  C9, amended. Whenever the section number of the current entry is at least 1 and
  differs from the previously emitted section number, the loop writes a new section
  header and the section counter; the reset of the subsection counter (and the
  subsection header) follows when the entry carries a subsection number, here one of
  at least 1, and does not follow when the entry has no subsection number. Then the
  listing begins.
\<close>

theorem section_transition:
  assumes "\<not> section < 1" and "Some section \<noteq> prev_section" and "subsection \<noteq> Some 0"
  shows "fst (write_entries d prev_section ((chapter, section, subsection, name, file) # es)) =
      [SectionHeader (section_title chapter section), SetSectionCounter section]
      @ (if subsection = None then []
         else [ResetSubsectionCounter, SubsectionHeader (replace_char CHR ''_'' CHR '' '' name)])
      @ BeginListing
      # (case read_file d file of
           Inl e \<Rightarrow> []
         | Inr t \<Rightarrow> Contents t # EndListing # fst (write_entries d (Some section) es))"
  using assms by (cases "subsection") (auto simp: Let_def case_prod_beta split: sum.splits)

theorem section_transition_witness:
  "fst (write_entries [(''1.2.1_probe_sort.cpp'', RegularFile ''int y;'')] (Some 1)
         [(1, 2, Some 1, ''probe_sort'', ''1.2.1_probe_sort.cpp'')]) =
     [SectionHeader ''Array Queries'', SetSectionCounter 2, ResetSubsectionCounter,
      SubsectionHeader ''probe sort'', BeginListing, Contents ''int y;'', EndListing]
   \<and> fst (write_entries [(''1.2_scan.cpp'', RegularFile ''int x;'')] (Some 1)
         [(1, 2, None, ''scan'', ''1.2_scan.cpp'')]) =
     [SectionHeader ''Array Queries'', SetSectionCounter 2,
      BeginListing, Contents ''int x;'', EndListing]"
proof -
  have a: "\<not> (2::nat) < 1" "Some (2::nat) \<noteq> Some 1" "Some (1::nat) \<noteq> Some 0" "(None :: nat option) \<noteq> Some 0"
    by simp_all
  have t: "section_title 1 2 = ''Array Queries''" by code_simp
  have r: "replace_char CHR ''_'' CHR '' '' ''probe_sort'' = ''probe sort''" by code_simp
  have f: "read_file [(''1.2.1_probe_sort.cpp'', RegularFile ''int y;'')] ''1.2.1_probe_sort.cpp'' = Inr ''int y;''"
    "read_file [(''1.2_scan.cpp'', RegularFile ''int x;'')] ''1.2_scan.cpp'' = Inr ''int x;''"
    by code_simp+
  have e: "\<And>d p. fst (write_entries d p []) = []" by simp
  from section_transition [OF a(1) a(2) a(3), of "[(''1.2.1_probe_sort.cpp'', RegularFile ''int y;'')]" 1
        "''probe_sort''" "''1.2.1_probe_sort.cpp''" "[]"]
    section_transition [OF a(1) a(2) a(4), of "[(''1.2_scan.cpp'', RegularFile ''int x;'')]" 1
        "''scan''" "''1.2_scan.cpp''" "[]"]
  show ?thesis by (simp only: t r f e sum.case option.distinct if_True if_False append.simps simp_thms)
qed

text \<open>
  C3, as stated, fails. A file whose name matches the pattern with section number 0 is
  skipped by the guard \<^verbatim>\<open>if section < 1\<close>, so its text is not in the document; and
  a text is copied as text mode reads it, with the line ending \<^verbatim>\<open>\r\n\<close> turned into
  \<^verbatim>\<open>\n\<close>.
\<close>

theorem unlisted_file_counterexample:
  "FILE_RE_match ''1.0_a.cpp'' = Some (''1'', ''0'', None, ''a'')
   \<and> gen_chapter_writes
       [(''1.0_a.cpp'', RegularFile ''int z;''),
        (''1.1_b.cpp'', RegularFile (''int x;'' @ [carriage_return, newline]))] 1 ''intro''
     = ([ChapterTitle ''intro'', SectionHeader ''Array Transformations'', SetSectionCounter 1,
         BeginListing, Contents (''int x;'' @ [newline]), EndListing], None)"
  by code_simp

text \<open>
  C3, amended. For every chapter directory (with pairwise different file names) whose
  generation ends without error, the texts between a begin and an end marker are, each
  exactly once, the texts of the files whose names match the pattern with a section
  number of at least 1, as text mode reads them; and no copied text stands outside
  such a pair of markers.
\<close>

theorem listings_of_chapter:
  assumes "distinct (map fst d)"
    and "gen_chapter_writes d chapter chapter_name = (ws, None)"
  shows "mset (map Inr (listings ws)) =
           mset (map (\<lambda>(file, nd). node_text nd) (filter (\<lambda>(file, nd). listed file) d))
    \<and> listings ws = all_contents ws"
proof -
  note s = gen_chapter_writes_success [OF assms(2)]
  let ?P = "\<lambda>e :: entry. 1 \<le> section_of e"
  let ?r = "\<lambda>e :: entry. read_file d (file_of e)"
  have "map Inr (listings ws) = map ?r (filter ?P (sort (entries d)))"
    using write_entries_success(2) [OF s(4)] by (simp add: s(3))
  then have "mset (map Inr (listings ws)) = image_mset ?r (filter_mset ?P (mset (sort (entries d))))"
    by simp
  also have "\<dots> = mset (map ?r (filter ?P (entries d)))" by simp
  also have "map ?r (filter ?P (entries d)) = map (read_file d) (filter listed (listdir d))"
    unfolding entries_def by (rule listed_entries)
  also have "\<dots> = map (\<lambda>(file, nd). node_text nd) (filter (\<lambda>(file, nd). listed file) d)"
  proof -
    have "filter listed (listdir d) = map fst (filter (\<lambda>(file, nd). listed file) d)"
      by (simp add: listdir_def filter_map comp_def case_prod_unfold)
    moreover have "map (read_file d \<circ> fst) (filter (\<lambda>(file, nd). listed file) d)
        = map (\<lambda>(file, nd). node_text nd) (filter (\<lambda>(file, nd). listed file) d)"
      by (rule map_cong) (auto simp: read_file_node [OF assms(1)])
    ultimately show ?thesis by simp
  qed
  finally have a: "mset (map Inr (listings ws)) =
      mset (map (\<lambda>(file, nd). node_text nd) (filter (\<lambda>(file, nd). listed file) d))" .
  have "listings ws = all_contents ws"
    using write_entries_success(3) [OF s(4)] by (simp add: s(3))
  with a show ?thesis by (rule conjI)
qed

theorem listings_of_chapter_witness:
  "mset (map Inr (listings
     [ChapterTitle ''intro'', SectionHeader ''Array Transformations'', SetSectionCounter 1,
      BeginListing, Contents ''int x;'', EndListing,
      SectionHeader ''Array Queries'', SetSectionCounter 2, ResetSubsectionCounter,
      SubsectionHeader ''probe sort'', BeginListing, Contents ''int y;'', EndListing]))
   = mset (map (\<lambda>(file, nd). node_text nd) (filter (\<lambda>(file, nd). listed file)
       [(''1.2.1_probe_sort.cpp'', RegularFile ''int y;''),
        (''README'', RegularFile ''notes''),
        (''1.1_scan.cpp'', RegularFile ''int x;'')]))
   \<and> listings
     [ChapterTitle ''intro'', SectionHeader ''Array Transformations'', SetSectionCounter 1,
      BeginListing, Contents ''int x;'', EndListing,
      SectionHeader ''Array Queries'', SetSectionCounter 2, ResetSubsectionCounter,
      SubsectionHeader ''probe sort'', BeginListing, Contents ''int y;'', EndListing]
     = [''int x;'', ''int y;'']"
proof -
  let ?d = "[(''1.2.1_probe_sort.cpp'', RegularFile ''int y;''),
        (''README'', RegularFile ''notes''),
        (''1.1_scan.cpp'', RegularFile ''int x;'')]"
  let ?ws = "[ChapterTitle ''intro'', SectionHeader ''Array Transformations'', SetSectionCounter 1,
      BeginListing, Contents ''int x;'', EndListing,
      SectionHeader ''Array Queries'', SetSectionCounter 2, ResetSubsectionCounter,
      SubsectionHeader ''probe sort'', BeginListing, Contents ''int y;'', EndListing]"
  have a: "distinct (map fst ?d)" by simp
  have b: "gen_chapter_writes ?d 1 ''intro'' = (?ws, None)" by code_simp
  have l: "listings ?ws = [''int x;'', ''int y;'']" by simp
  from listings_of_chapter [OF a b] have
    "mset (map Inr (listings ?ws)) =
       mset (map (\<lambda>(file, nd). node_text nd) (filter (\<lambda>(file, nd). listed file) ?d))"
    by (rule conjunct1)
  from this l show ?thesis by (rule conjI)
qed

text \<open>
  C6, as stated, fails: an entry with a subsection number whose section number is 0 is
  skipped, and no subsection header is written for it.
\<close>

theorem skipped_subsection_counterexample:
  "collect_entries 1 (listdir [(''1.0.1_x.cpp'', RegularFile ''int z;'')])
     = Inr [(1, 0, Some 1, ''x'', ''1.0.1_x.cpp'')]
   \<and> gen_chapter_writes [(''1.0.1_x.cpp'', RegularFile ''int z;'')] 1 ''intro''
     = ([ChapterTitle ''intro''], None)"
  by code_simp

text \<open>
  C6, amended. For every chapter directory whose generation ends without error, the
  subsection headers of the document are, in processing order, the names (each
  underscore replaced by a space) of exactly the matched entries with a section number
  of at least 1 and a subsection number of at least 1; the processing order ascends in
  (section, subsection). So every such entry gets its subsection header, and an entry
  without a subsection number gets none.
\<close>

theorem subsection_headers_of_chapter:
  assumes "collect_entries chapter (listdir d) = Inr es"
    and "gen_chapter_writes d chapter chapter_name = (ws, None)"
  shows "subsection_headers ws =
           map (\<lambda>e. replace_char CHR ''_'' CHR '' '' (name_of e))
             (filter (\<lambda>e. 1 \<le> section_of e \<and>
                           (case subsection_of e of None \<Rightarrow> False | Some k \<Rightarrow> 1 \<le> k))
                (sort es))
    \<and> sorted (map (\<lambda>e. (section_of e, subsection_of e)) (sort es))"
proof -
  note s = gen_chapter_writes_success [OF assms(2)]
  have es: "es = entries d" using assms(1) s(1) by simp
  have a: "subsection_headers ws =
      map (\<lambda>e. replace_char CHR ''_'' CHR '' '' (name_of e))
        (filter (\<lambda>e. 1 \<le> section_of e \<and>
                      (case subsection_of e of None \<Rightarrow> False | Some k \<Rightarrow> 1 \<le> k))
           (sort es))"
    using write_entries_success(1) [OF s(4)] by (simp add: s(3) es truthy_iff)
  have "\<not> list_ex (misplaced chapter) (listdir d)"
    using s(1) by (auto simp: collect_entries_eq split: if_splits)
  then have "\<forall>e\<in>set (sort es). fst e = chapter"
    using entries_chapter [of "chapter" "listdir d"] by (auto simp: es entries_def)
  then have "sorted (map (\<lambda>e. (section_of e, subsection_of e)) (sort es))"
    by (intro sorted_section_subsection) auto
  with a show ?thesis by (rule conjI)
qed

theorem subsection_headers_of_chapter_witness:
  "subsection_headers
     [ChapterTitle ''intro'', SectionHeader ''Array Transformations'', SetSectionCounter 1,
      BeginListing, Contents ''int x;'', EndListing,
      SectionHeader ''Array Queries'', SetSectionCounter 2,
      BeginListing, Contents ''int w;'', EndListing,
      SubsectionHeader ''probe sort'', BeginListing, Contents ''int y;'', EndListing,
      SubsectionHeader ''b c'', BeginListing, Contents ''int z;'', EndListing]
   = map (\<lambda>e. replace_char CHR ''_'' CHR '' '' (name_of e))
       (filter (\<lambda>e. 1 \<le> section_of e \<and>
                     (case subsection_of e of None \<Rightarrow> False | Some k \<Rightarrow> 1 \<le> k))
         (sort [(1, 2, Some 2, ''b_c'', ''1.2.2_b_c.cpp''),
                (1, 2, Some 0, ''zero'', ''1.2.0_zero.cpp''),
                (1, 2, Some 1, ''probe_sort'', ''1.2.1_probe_sort.cpp''),
                (1, 1, None, ''scan'', ''1.1_scan.cpp'')]))
   \<and> sort [(1, 2, Some 2, ''b_c'', ''1.2.2_b_c.cpp''),
            (1, 2, Some 0, ''zero'', ''1.2.0_zero.cpp''),
            (1, 2, Some 1, ''probe_sort'', ''1.2.1_probe_sort.cpp''),
            (1, 1, None, ''scan'', ''1.1_scan.cpp'') :: entry]
     = [(1, 1, None, ''scan'', ''1.1_scan.cpp''),
        (1, 2, Some 0, ''zero'', ''1.2.0_zero.cpp''),
        (1, 2, Some 1, ''probe_sort'', ''1.2.1_probe_sort.cpp''),
        (1, 2, Some 2, ''b_c'', ''1.2.2_b_c.cpp'')]
   \<and> subsection_headers
     [ChapterTitle ''intro'', SectionHeader ''Array Transformations'', SetSectionCounter 1,
      BeginListing, Contents ''int x;'', EndListing,
      SectionHeader ''Array Queries'', SetSectionCounter 2,
      BeginListing, Contents ''int w;'', EndListing,
      SubsectionHeader ''probe sort'', BeginListing, Contents ''int y;'', EndListing,
      SubsectionHeader ''b c'', BeginListing, Contents ''int z;'', EndListing]
     = [''probe sort'', ''b c'']"
proof -
  let ?d = "[(''1.2.2_b_c.cpp'', RegularFile ''int z;''),
             (''1.2.0_zero.cpp'', RegularFile ''int w;''),
             (''1.2.1_probe_sort.cpp'', RegularFile ''int y;''),
             (''1.1_scan.cpp'', RegularFile ''int x;'')]"
  let ?es = "[(1, 2, Some 2, ''b_c'', ''1.2.2_b_c.cpp''),
              (1, 2, Some 0, ''zero'', ''1.2.0_zero.cpp''),
              (1, 2, Some 1, ''probe_sort'', ''1.2.1_probe_sort.cpp''),
              (1, 1, None, ''scan'', ''1.1_scan.cpp'')] :: entry list"
  let ?ws = "[ChapterTitle ''intro'', SectionHeader ''Array Transformations'', SetSectionCounter 1,
      BeginListing, Contents ''int x;'', EndListing,
      SectionHeader ''Array Queries'', SetSectionCounter 2,
      BeginListing, Contents ''int w;'', EndListing,
      SubsectionHeader ''probe sort'', BeginListing, Contents ''int y;'', EndListing,
      SubsectionHeader ''b c'', BeginListing, Contents ''int z;'', EndListing]"
  have a: "collect_entries 1 (listdir ?d) = Inr ?es" by code_simp
  have b: "gen_chapter_writes ?d 1 ''intro'' = (?ws, None)" by code_simp
  have s: "sorted_py ?es = Inr [(1, 1, None, ''scan'', ''1.1_scan.cpp''),
        (1, 2, Some 0, ''zero'', ''1.2.0_zero.cpp''),
        (1, 2, Some 1, ''probe_sort'', ''1.2.1_probe_sort.cpp''),
        (1, 2, Some 2, ''b_c'', ''1.2.2_b_c.cpp'')]" by code_simp
  from sorted_py_Inr [OF s] have e: "sort ?es = [(1, 1, None, ''scan'', ''1.1_scan.cpp''),
        (1, 2, Some 0, ''zero'', ''1.2.0_zero.cpp''),
        (1, 2, Some 1, ''probe_sort'', ''1.2.1_probe_sort.cpp''),
        (1, 2, Some 2, ''b_c'', ''1.2.2_b_c.cpp'')]" by simp
  have h: "subsection_headers ?ws = [''probe sort'', ''b c'']" by simp
  from subsection_headers_of_chapter [OF a b] have
    "subsection_headers ?ws = map (\<lambda>e. replace_char CHR ''_'' CHR '' '' (name_of e))
       (filter (\<lambda>e. 1 \<le> section_of e \<and>
                     (case subsection_of e of None \<Rightarrow> False | Some k \<Rightarrow> 1 \<le> k)) (sort ?es))"
    by (rule conjunct1)
  from this e h show ?thesis by (intro conjI)
qed




end
